theory Spec2Isabelle
  imports Main "HOL-Library.AList" "HOL-Library.Sublist"
begin

section \<open>The instance launch orchestrator of run\_camoufox.py\<close>

text \<open>
  The theory embeds \<^verbatim>\<open>src/run_camoufox.py\<close>: the three functions
  \<^verbatim>\<open>_clean_env_value\<close>, \<^verbatim>\<open>load_instances_from_env\<close> and \<^verbatim>\<open>main\<close>.
  Everything the program does to the outside (creating directories, scanning the cookies
  directory, logging, starting, joining and terminating processes, sleeping) is recorded
  as an event of a trace; everything it reads from the outside (the environment
  variables, the state of the two directories, what \<^verbatim>\<open>Path.resolve\<close> answers,
  when Ctrl+C arrives) is a field of the records \<open>world\<close> and \<open>filesystem\<close>.

  Strings are lists of 8-bit characters, read as the code points 0 to 255 of a Python
  \<^verbatim>\<open>str\<close>. Paths are the lists of their components below the file system root.
  The collaborators that are not part of the file (the logger, \<^verbatim>\<open>cookies_dir\<close>,
  \<^verbatim>\<open>logs_dir\<close>, \<^verbatim>\<open>Process.start\<close>) are taken to return normally; the exceptions
  that are modelled are the \<^verbatim>\<open>OSError\<close> of \<^verbatim>\<open>os.makedirs\<close> and \<^verbatim>\<open>os.listdir\<close>
  and the \<^verbatim>\<open>KeyboardInterrupt\<close> raised inside a blocking call
  (\<^verbatim>\<open>time.sleep\<close>, \<^verbatim>\<open>Process.join\<close>).
\<close>

subsection \<open>Strings\<close>

text \<open>\<^verbatim>\<open>str.isspace\<close> on the code points below 256.\<close>

definition is_space :: "char \<Rightarrow> bool" where
  "is_space c =
     (let n = (of_char c :: nat)
      in (9 \<le> n \<and> n \<le> 13) \<or> (28 \<le> n \<and> n \<le> 32) \<or> n = 133 \<or> n = 160)"

text \<open>\<^verbatim>\<open>str.strip()\<close>: leading and trailing white space removed.\<close>

definition strip :: "string \<Rightarrow> string" where
  "strip s = rev (dropWhile is_space (rev (dropWhile is_space s)))"

text \<open>\<^verbatim>\<open>str.lower()\<close> on the code points below 256: the letters A to Z and the
  upper-case letters of Latin-1 (192 to 222 without the multiplication sign 215) move
  up by 32, every other character stays.\<close>

definition lower_char :: "char \<Rightarrow> char" where
  "lower_char c =
     (let n = (of_char c :: nat)
      in if (65 \<le> n \<and> n \<le> 90) \<or> (192 \<le> n \<and> n \<le> 222 \<and> n \<noteq> 215)
         then char_of (n + 32) else c)"

definition lower :: "string \<Rightarrow> string" where
  "lower s = map lower_char s"

text \<open>\<^verbatim>\<open>s.endswith(suffix)\<close>.\<close>

definition endswith :: "string \<Rightarrow> string \<Rightarrow> bool" where
  "endswith s suf =
     (length suf \<le> length s \<and> drop (length s - length suf) s = suf)"

text \<open>\<^verbatim>\<open>os.path.basename\<close> of \<^verbatim>\<open>posixpath\<close>: what follows the last slash.\<close>

definition basename :: "string \<Rightarrow> string" where
  "basename p = rev (takeWhile (\<lambda>c. c \<noteq> CHR ''/'') (rev p))"

subsection \<open>The environment of a run\<close>

type_synonym path = "string list"

text \<open>A Python \<^verbatim>\<open>dict\<close> of strings, in insertion order.\<close>

type_synonym config = "(string \<times> string) list"

datatype exn = OSError | KeyboardInterrupt

text \<open>What is found at the path of a directory the program needs: nothing (and whether
  the directory can be created there), something that is not a directory, or a directory
  with the answer of \<^verbatim>\<open>os.listdir\<close> (\<open>None\<close> when listing raises \<^verbatim>\<open>OSError\<close>).\<close>

datatype fs_node = NoEntry bool | NonDir | Directory "string list option"

text \<open>What a run reads and never changes: the environment variables, the path
  \<^verbatim>\<open>cookies_dir()\<close>, the answers of \<^verbatim>\<open>Path.resolve\<close> (symbolic links followed), and
  the arrival of Ctrl+C.\<close>

record world =
  environ :: "string \<rightharpoonup> string"
  cookies_dir :: path
  resolve :: "path \<Rightarrow> path"
  interrupted :: "nat \<Rightarrow> bool"

text \<open>\<open>interrupted w k\<close> says that Ctrl+C arrives during the \<open>k\<close>-th blocking call of
  the run (sleeps and joins, counted from 0 in program order), which then raises
  \<^verbatim>\<open>KeyboardInterrupt\<close>.\<close>

text \<open>What a run may change: the two directories that \<^verbatim>\<open>main\<close> creates.\<close>

record filesystem =
  logs_node :: fs_node
  cookies_node :: fs_node

text \<open>\<^verbatim>\<open>os.makedirs(path, exist_ok=True)\<close>: a directory stays, a missing one is
  created empty when that is allowed, anything else raises.\<close>

fun makedirs :: "fs_node \<Rightarrow> exn + fs_node" where
  "makedirs (Directory l) = Inr (Directory l)"
| "makedirs NonDir = Inl OSError"
| "makedirs (NoEntry creatable) = (if creatable then Inr (Directory (Some [])) else Inl OSError)"

text \<open>\<^verbatim>\<open>os.path.isdir\<close>.\<close>

fun isdir :: "fs_node \<Rightarrow> bool" where
  "isdir (Directory l) = True"
| "isdir n = False"

text \<open>\<^verbatim>\<open>os.listdir\<close>; called on directories only.\<close>

fun listdir :: "fs_node \<Rightarrow> exn + string list" where
  "listdir (Directory (Some names)) = Inr names"
| "listdir n = Inl OSError"

text \<open>\<^verbatim>\<open>Path.parents\<close>: the proper ancestors, nearest first.\<close>

definition parents :: "path \<Rightarrow> path list" where
  "parents p = map (\<lambda>n. take n p) (rev [0..<length p])"

subsection \<open>Events\<close>

datatype level = Info | Warning | Error

datatype msg =
    Msg_manager_starting
  | Msg_missing_url
  | Msg_cookies_dir_missing
  | Msg_no_cookie_files
  | Msg_scan_failed
  | Msg_found_cookie_files nat
  | Msg_shared_url string
  | Msg_no_instances
  | Msg_skip_invalid_config config
  | Msg_path_not_allowed string
  | Msg_not_json string
  | Msg_outside_cookies string
  | Msg_launching nat nat string
  | Msg_waiting
  | Msg_nothing_to_launch
  | Msg_all_started nat
  | Msg_caught_interrupt
  | Msg_all_terminated

datatype dir_kind = LogsDir | CookiesDir

text \<open>\<open>Start c\<close> is \<^verbatim>\<open>Process(target=run_browser_instance, args=(c,)).start()\<close>;
  \<open>Join i\<close> and \<open>Terminate i\<close> act on the \<open>i\<close>-th element of \<^verbatim>\<open>processes\<close>;
  \<open>Sleep d\<close> and \<open>Join i\<close> are recorded when the call returns, \<open>Interrupt\<close> when it
  raises \<^verbatim>\<open>KeyboardInterrupt\<close> instead.\<close>

datatype event =
    Makedirs dir_kind
  | IsDir
  | ListDir
  | Log level msg
  | Start config
  | Sleep nat
  | Join nat
  | Terminate nat
  | Interrupt

datatype outcome = Returned | Raised exn

subsection \<open>Configuration loading and discovery\<close>

definition clean_env_value :: "string option \<Rightarrow> string option" where
  "clean_env_value raw =
     (case raw of
        None \<Rightarrow> None
      | Some r \<Rightarrow> (let stripped = strip r in if stripped = [] then None else Some stripped))"

text \<open>The result is \<open>None\<close> for the Python pair \<^verbatim>\<open>(None, None)\<close>, and the trace
  holds the log lines and the file system calls in the order they are made.\<close>

definition read_global_settings :: "world \<Rightarrow> string \<Rightarrow> config" where
  "read_global_settings w shared_url =
     (let headless = (case clean_env_value (environ w ''CAMOUFOX_HEADLESS'') of
                        None \<Rightarrow> ''virtual'' | Some h \<Rightarrow> h);
          global_settings = [(''headless'', headless), (''url'', shared_url)]
      in case clean_env_value (environ w ''CAMOUFOX_PROXY'') of
           None \<Rightarrow> global_settings
         | Some proxy_value \<Rightarrow> AList.update ''proxy'' proxy_value global_settings)"

definition load_instances_from_env ::
  "world \<Rightarrow> filesystem \<Rightarrow> event list \<times> (config \<times> config list) option" where
  "load_instances_from_env w fs =
     (case clean_env_value (environ w ''CAMOUFOX_INSTANCE_URL'') of
        None \<Rightarrow> ([Log Error Msg_missing_url], None)
      | Some shared_url \<Rightarrow>
          if shared_url = [] then ([Log Error Msg_missing_url], None)
          else
            let global_settings = read_global_settings w shared_url
            in if \<not> isdir (cookies_node fs)
               then ([IsDir, Log Error Msg_cookies_dir_missing], None)
               else
                 (case listdir (cookies_node fs) of
                    Inl e \<Rightarrow> ([IsDir, ListDir, Log Error Msg_scan_failed], None)
                  | Inr names \<Rightarrow>
                      let cookie_files = filter (\<lambda>f. endswith (lower f) ''.json'') names
                      in if cookie_files = []
                         then ([IsDir, ListDir, Log Error Msg_no_cookie_files], None)
                         else
                           let instances = map (\<lambda>f. [(''cookie_file'', f)]) cookie_files
                           in ([IsDir, ListDir,
                                Log Info (Msg_found_cookie_files (length instances)),
                                Log Info (Msg_shared_url shared_url)],
                               Some (global_settings, instances))))"

subsection \<open>Validation of one profile\<close>

text \<open>\<^verbatim>\<open>final_config = global_settings.copy(); final_config.update(profile)\<close>.\<close>

definition final_config :: "config \<Rightarrow> config \<Rightarrow> config" where
  "final_config global_settings profile =
     fold (\<lambda>(k, v). AList.update k v) profile global_settings"

text \<open>The four checks of the loop body, in the order of the source. \<open>Inl\<close> is the
  log line of the \<^verbatim>\<open>continue\<close> branch taken, \<open>Inr\<close> the configuration handed to the
  worker. The path that is resolved is \<^verbatim>\<open>cookies_root / cookie_candidate\<close>; the
  candidate has passed the base name check there, so it has no slash and is one
  component.\<close>

definition check_profile :: "world \<Rightarrow> config \<Rightarrow> config \<Rightarrow> (level \<times> msg) + config" where
  "check_profile w global_settings profile =
     (let cfg = final_config global_settings profile
      in case map_of cfg ''cookie_file'' of
           None \<Rightarrow> Inl (Warning, Msg_skip_invalid_config profile)
         | Some cookie_candidate \<Rightarrow>
             if map_of cfg ''url'' = None then Inl (Warning, Msg_skip_invalid_config profile)
             else if basename cookie_candidate \<noteq> cookie_candidate
               then Inl (Error, Msg_path_not_allowed cookie_candidate)
             else if \<not> endswith (lower cookie_candidate) ''.json''
               then Inl (Error, Msg_not_json cookie_candidate)
             else
               let cookies_root = resolve w (cookies_dir w);
                   resolved_cookie = resolve w (cookies_root @ [cookie_candidate])
               in if cookies_root \<notin> set (parents resolved_cookie) \<and> resolved_cookie \<noteq> cookies_root
                  then Inl (Error, Msg_outside_cookies cookie_candidate)
                  else Inr cfg)"

subsection \<open>The launch loop and the join phase\<close>

record sup_state =
  trace :: "event list"
  processes :: "config list"
  blocked :: nat

definition emit :: "event list \<Rightarrow> sup_state \<Rightarrow> sup_state" where
  "emit es s = s\<lparr>trace := trace s @ es\<rparr>"

text \<open>A blocking call: it raises when Ctrl+C arrives during it, and records its event
  otherwise. Either way it is one more blocking call of the run.\<close>

definition blocking :: "world \<Rightarrow> event \<Rightarrow> sup_state \<Rightarrow> exn option \<times> sup_state" where
  "blocking w ev s =
     (if interrupted w (blocked s)
      then (Some KeyboardInterrupt, (emit [Interrupt] s)\<lparr>blocked := Suc (blocked s)\<rparr>)
      else (None, (emit [ev] s)\<lparr>blocked := Suc (blocked s)\<rparr>))"

text \<open>\<^verbatim>\<open>for i, profile in enumerate(instance_profiles, 1)\<close>: \<open>n\<close> is
  \<^verbatim>\<open>len(instance_profiles)\<close>, \<open>i\<close> the number of the first profile of the list
  still to be visited.\<close>

fun launch :: "world \<Rightarrow> config \<Rightarrow> nat \<Rightarrow> nat \<Rightarrow> config list \<Rightarrow> sup_state \<Rightarrow> exn option \<times> sup_state" where
  "launch w gs n i [] s = (None, s)"
| "launch w gs n i (profile # rest) s =
     (case check_profile w gs profile of
        Inl (lv, m) \<Rightarrow> launch w gs n (Suc i) rest (emit [Log lv m] s)
      | Inr cfg \<Rightarrow>
          let s1 = (emit [Log Info (Msg_launching i n (the (map_of cfg ''cookie_file''))), Start cfg] s)
                     \<lparr>processes := processes s @ [cfg]\<rparr>
          in if i < n
             then (case blocking w (Sleep 30) (emit [Log Info Msg_waiting] s1) of
                     (Some e, s2) \<Rightarrow> (Some e, s2)
                   | (None, s2) \<Rightarrow> launch w gs n (Suc i) rest s2)
             else launch w gs n (Suc i) rest s1)"

text \<open>\<^verbatim>\<open>for process in processes: process.join()\<close>, from process number \<open>j\<close> on.\<close>

fun join_all :: "world \<Rightarrow> nat \<Rightarrow> nat \<Rightarrow> sup_state \<Rightarrow> exn option \<times> sup_state" where
  "join_all w j 0 s = (None, s)"
| "join_all w j (Suc k) s =
     (case blocking w (Join j) s of
        (Some e, s1) \<Rightarrow> (Some e, s1)
      | (None, s1) \<Rightarrow> join_all w (Suc j) k s1)"

text \<open>\<^verbatim>\<open>for process in processes: process.terminate(); process.join()\<close>.\<close>

fun terminate_all :: "world \<Rightarrow> nat \<Rightarrow> nat \<Rightarrow> sup_state \<Rightarrow> exn option \<times> sup_state" where
  "terminate_all w j 0 s = (None, s)"
| "terminate_all w j (Suc k) s =
     (case blocking w (Join j) (emit [Terminate j] s) of
        (Some e, s1) \<Rightarrow> (Some e, s1)
      | (None, s1) \<Rightarrow> terminate_all w (Suc j) k s1)"

text \<open>What follows the loop: the check for an empty \<^verbatim>\<open>processes\<close>, the joins, and the
  \<^verbatim>\<open>except KeyboardInterrupt\<close> handler, which covers the joins only.\<close>

definition supervise :: "world \<Rightarrow> sup_state \<Rightarrow> outcome \<times> event list" where
  "supervise w s =
     (if processes s = [] then (Returned, trace s @ [Log Error Msg_nothing_to_launch])
      else
        let s1 = emit [Log Info (Msg_all_started (length (processes s)))] s
        in case join_all w 0 (length (processes s)) s1 of
             (None, s2) \<Rightarrow> (Returned, trace s2)
           | (Some OSError, s2) \<Rightarrow> (Raised OSError, trace s2)
           | (Some KeyboardInterrupt, s2) \<Rightarrow>
               (case terminate_all w 0 (length (processes s))
                       (emit [Log Info Msg_caught_interrupt] s2) of
                  (None, s3) \<Rightarrow> (Returned, trace s3 @ [Log Info Msg_all_terminated])
                | (Some e, s3) \<Rightarrow> (Raised e, trace s3)))"

text \<open>The loop over all profiles and what follows it.\<close>

definition run_instances :: "world \<Rightarrow> config \<Rightarrow> config list \<Rightarrow> event list \<Rightarrow> outcome \<times> event list" where
  "run_instances w gs instance_profiles tr =
     (case launch w gs (length instance_profiles) 1 instance_profiles
             \<lparr>trace = tr, processes = [], blocked = 0\<rparr> of
        (Some e, s) \<Rightarrow> (Raised e, trace s)
      | (None, s) \<Rightarrow> supervise w s)"

definition main :: "world \<Rightarrow> filesystem \<Rightarrow> outcome \<times> event list" where
  "main w fs =
     (case makedirs (logs_node fs) of
        Inl e \<Rightarrow> (Raised e, [Makedirs LogsDir])
      | Inr ln \<Rightarrow>
          (case makedirs (cookies_node fs) of
             Inl e \<Rightarrow> (Raised e, [Makedirs LogsDir, Makedirs CookiesDir])
           | Inr cn \<Rightarrow>
               let fs1 = fs\<lparr>logs_node := ln, cookies_node := cn\<rparr>;
                   tr0 = [Makedirs LogsDir, Makedirs CookiesDir, Log Info Msg_manager_starting]
               in (case load_instances_from_env w fs1 of
                    (tr1, None) \<Rightarrow> (Returned, tr0 @ tr1 @ [Log Error Msg_no_instances])
                  | (tr1, Some (global_settings, instance_profiles)) \<Rightarrow>
                      if instance_profiles = []
                      then (Returned, tr0 @ tr1 @ [Log Error Msg_no_instances])
                      else run_instances w global_settings instance_profiles (tr0 @ tr1))))"

subsection \<open>Observations on traces\<close>

text \<open>The configurations of the workers started, in the order of their start.\<close>

fun spawned :: "event list \<Rightarrow> config list" where
  "spawned [] = []"
| "spawned (Start c # es) = c # spawned es"
| "spawned (e # es) = spawned es"

text \<open>The durations of the pacing waits that were completed.\<close>

fun sleeps :: "event list \<Rightarrow> nat list" where
  "sleeps [] = []"
| "sleeps (Sleep d # es) = d # sleeps es"
| "sleeps (e # es) = sleeps es"

text \<open>The time of each start on the clock that the completed waits advance: a lower
  bound of the real time between the starts, since \<^verbatim>\<open>time.sleep(d)\<close> suspends the
  orchestrator for at least \<open>d\<close> seconds.\<close>

fun spawn_times :: "nat \<Rightarrow> event list \<Rightarrow> nat list" where
  "spawn_times t [] = []"
| "spawn_times t (Start c # es) = t # spawn_times t es"
| "spawn_times t (Sleep d # es) = spawn_times (t + d) es"
| "spawn_times t (e # es) = spawn_times t es"

text \<open>The configurations that pass the checks of the loop body, in the order of the
  profiles.\<close>

definition accepted :: "world \<Rightarrow> config \<Rightarrow> config list \<Rightarrow> config list" where
  "accepted w gs ps =
     concat (map (\<lambda>p. case check_profile w gs p of Inl r \<Rightarrow> [] | Inr c \<Rightarrow> [c]) ps)"

text \<open>The three checks that the loop body applies to the file name of a profile.\<close>

definition profile_ok :: "world \<Rightarrow> string \<Rightarrow> bool" where
  "profile_ok w f =
     (basename f = f \<and> endswith (lower f) ''.json'' \<and>
      (let cookies_root = resolve w (cookies_dir w);
           resolved_cookie = resolve w (cookies_root @ [f])
       in cookies_root \<in> set (parents resolved_cookie) \<or> resolved_cookie = cookies_root))"

text \<open>The log lines of the profiles that the loop body skips.\<close>

definition rejections :: "world \<Rightarrow> config \<Rightarrow> config list \<Rightarrow> event list" where
  "rejections w gs ps =
     concat (map (\<lambda>p. case check_profile w gs p of Inl (lv, m) \<Rightarrow> [Log lv m] | Inr c \<Rightarrow> []) ps)"

subsection \<open>Example runs\<close>

text \<open>A world whose endpoint variable is set (with white space around the value), and a
  cookies directory \<^verbatim>\<open>/app/cookies\<close> in which \<^verbatim>\<open>self.json\<close> is a symbolic link to the
  directory itself, \<^verbatim>\<open>out.json\<close> a symbolic link to \<^verbatim>\<open>/etc/passwd\<close> and
  \<^verbatim>\<open>far.json\<close> a symbolic link to \<^verbatim>\<open>/tmp/far.json\<close>; every other name is a regular
  file. No Ctrl+C arrives.\<close>

definition demo_world :: world where
  "demo_world =
     \<lparr>environ = [''CAMOUFOX_INSTANCE_URL'' \<mapsto> '' https://x.test ''],
      cookies_dir = [''app'', ''cookies''],
      resolve = (\<lambda>p. if p = [''app'', ''cookies'', ''self.json''] then [''app'', ''cookies'']
                     else if p = [''app'', ''cookies'', ''out.json''] then [''etc'', ''passwd'']
                     else if p = [''app'', ''cookies'', ''far.json''] then [''tmp'', ''far.json'']
                     else p),
      interrupted = (\<lambda>k. False)\<rparr>"

text \<open>The same world with Ctrl+C during the \<open>k\<close>-th blocking call.\<close>

definition ctrl_c_at :: "nat \<Rightarrow> world \<Rightarrow> world" where
  "ctrl_c_at k w = w\<lparr>interrupted := (\<lambda>j. j = k)\<rparr>"

text \<open>The same world with the endpoint variable set to white space only.\<close>

definition blank_url :: "world \<Rightarrow> world" where
  "blank_url w = w\<lparr>environ := (environ w)(''CAMOUFOX_INSTANCE_URL'' \<mapsto> ''   '')\<rparr>"

text \<open>A file system where the logs directory is still to be created and the cookies
  directory lists the given names.\<close>

definition demo_fs :: "string list \<Rightarrow> filesystem" where
  "demo_fs names = \<lparr>logs_node = NoEntry True, cookies_node = Directory (Some names)\<rparr>"

section \<open>Properties\<close>

subsection \<open>Paths and strings\<close>

lemma parents_iff: "r \<in> set (parents p) \<longleftrightarrow> strict_prefix r p"
proof
  assume "r \<in> set (parents p)"
  then obtain n where n: "n < length p" "r = take n p" by (auto simp: parents_def)
  have "prefix r p" using n by (simp add: take_is_prefix)
  moreover have "length r < length p" using n by simp
  ultimately show "strict_prefix r p" by (auto simp: strict_prefix_def)
next
  assume "strict_prefix r p"
  then obtain z where z: "p = r @ z" "z \<noteq> []" by (auto simp: strict_prefix_def prefix_def)
  then have "length r < length p" "r = take (length r) p" by auto
  then have "r \<in> (\<lambda>n. take n p) ` {0..<length p}" by (intro image_eqI[where x = "length r"]) auto
  then show "r \<in> set (parents p)" by (simp add: parents_def)
qed

lemma basename_neq_iff: "basename c \<noteq> c \<longleftrightarrow> CHR ''/'' \<in> set c"
proof -
  have "basename c = c \<longleftrightarrow> rev (basename c) = rev c" by simp
  also have "\<dots> \<longleftrightarrow> takeWhile (\<lambda>x. x \<noteq> CHR ''/'') (rev c) = rev c"
    by (simp add: basename_def)
  also have "\<dots> \<longleftrightarrow> (\<forall>x\<in>set (rev c). x \<noteq> CHR ''/'')"
    by simp
  finally show ?thesis by auto
qed

lemma dropWhile_all_iff: "(\<forall>c\<in>set (dropWhile P xs). P c) \<longleftrightarrow> (\<forall>c\<in>set xs. P c)"
  by (induction xs) auto

lemma strip_empty_iff: "strip r = [] \<longleftrightarrow> (\<forall>c\<in>set r. is_space c)"
  by (simp add: strip_def dropWhile_all_iff)

subsection \<open>Traces\<close>

lemma spawned_append: "spawned (a @ b) = spawned a @ spawned b"
  by (induction a rule: spawned.induct) simp_all

lemma sleeps_append: "sleeps (a @ b) = sleeps a @ sleeps b"
  by (induction a rule: sleeps.induct) simp_all

lemma spawn_times_append:
  "spawn_times t (a @ b) = spawn_times t a @ spawn_times (t + sum_list (sleeps a)) b"
  by (induction t a rule: spawn_times.induct) (simp_all add: add.assoc)

subsection \<open>Accepted and rejected profiles\<close>

lemma check_profile_file:
  assumes "map_of gs ''url'' = Some u"
  shows "check_profile w gs [(''cookie_file'', f)] =
           (if profile_ok w f then Inr (AList.update ''cookie_file'' f gs)
            else if basename f \<noteq> f then Inl (Error, Msg_path_not_allowed f)
            else if \<not> endswith (lower f) ''.json'' then Inl (Error, Msg_not_json f)
            else Inl (Error, Msg_outside_cookies f))"
  using assms
  by (auto simp: check_profile_def final_config_def profile_ok_def Let_def update_conv' map_of_eq_None_iff)

lemma accepted_Nil [simp]: "accepted w gs [] = []"
  by (simp add: accepted_def)

lemma accepted_Cons:
  "accepted w gs (p # ps) =
     (case check_profile w gs p of Inl r \<Rightarrow> accepted w gs ps | Inr c \<Rightarrow> c # accepted w gs ps)"
  by (simp add: accepted_def split: sum.splits)

subsection \<open>The loops without and with Ctrl+C\<close>

lemma launch_quiet:
  assumes "\<forall>k. \<not> interrupted w k"
  shows "fst (launch w gs n i ps s) = None \<and>
         processes (snd (launch w gs n i ps s)) = processes s @ accepted w gs ps \<and>
         spawned (trace (snd (launch w gs n i ps s))) = spawned (trace s) @ accepted w gs ps"
  using assms
proof (induction ps arbitrary: i s)
  case Nil
  then show ?case by simp
next
  case (Cons p ps)
  show ?case
  proof (cases "check_profile w gs p")
    case (Inl r)
    then show ?thesis using Cons.IH[OF Cons.prems]
      by (cases r) (simp add: accepted_Cons emit_def spawned_append)
  next
    case (Inr cfg)
    then show ?thesis using Cons.IH[OF Cons.prems] Cons.prems
      by (simp add: accepted_Cons emit_def spawned_append blocking_def Let_def)
  qed
qed


lemma join_all_quiet:
  assumes "\<forall>m<k. \<not> interrupted w (blocked s + m)"
  shows "join_all w j k s =
           (None, s\<lparr>trace := trace s @ map Join [j..<j + k], blocked := blocked s + k\<rparr>)"
  using assms
proof (induction k arbitrary: j s)
  case 0
  then show ?case by simp
next
  case (Suc k)
  have first: "\<not> interrupted w (blocked s)" using Suc.prems by force
  have rest: "\<forall>m<k. \<not> interrupted w (Suc (blocked s) + m)" using Suc.prems by force
  have "join_all w (Suc j) k ((emit [Join j] s)\<lparr>blocked := Suc (blocked s)\<rparr>) =
          (None, s\<lparr>trace := trace s @ Join j # map Join [Suc j..<Suc j + k],
                    blocked := Suc (blocked s) + k\<rparr>)"
    using Suc.IH[of "(emit [Join j] s)\<lparr>blocked := Suc (blocked s)\<rparr>" "Suc j"] rest
    by (simp add: emit_def)
  then show ?case using first
    by (simp add: blocking_def upt_conv_Cons)
qed

lemma join_all_interrupted:
  assumes "\<forall>m'<m. \<not> interrupted w (blocked s + m')" "interrupted w (blocked s + m)" "m < k"
  shows "join_all w j k s =
           (Some KeyboardInterrupt,
            s\<lparr>trace := trace s @ map Join [j..<j + m] @ [Interrupt], blocked := Suc (blocked s + m)\<rparr>)"
  using assms
proof (induction k arbitrary: j s m)
  case 0
  then show ?case by simp
next
  case (Suc k)
  show ?case
  proof (cases m)
    case 0
    then show ?thesis using Suc.prems by (simp add: blocking_def emit_def)
  next
    case (Suc m')
    have first: "\<not> interrupted w (blocked s)" using Suc.prems(1) Suc by force
    let ?s1 = "(emit [Join j] s)\<lparr>blocked := Suc (blocked s)\<rparr>"
    have a: "\<forall>q<m'. \<not> interrupted w (blocked ?s1 + q)" using Suc.prems(1) Suc by (force simp: emit_def)
    have b: "interrupted w (blocked ?s1 + m')" using Suc.prems(2) Suc by (simp add: emit_def)
    have c: "m' < k" using Suc.prems(3) Suc by simp
    show ?thesis using Suc.IH[OF a b c, of "Suc j"] first Suc
      by (simp add: blocking_def emit_def upt_conv_Cons)
  qed
qed

lemma terminate_all_quiet:
  assumes "\<forall>m<k. \<not> interrupted w (blocked s + m)"
  shows "terminate_all w j k s =
           (None, s\<lparr>trace := trace s @ concat (map (\<lambda>i. [Terminate i, Join i]) [j..<j + k]),
                     blocked := blocked s + k\<rparr>)"
  using assms
proof (induction k arbitrary: j s)
  case 0
  then show ?case by simp
next
  case (Suc k)
  have first: "\<not> interrupted w (blocked s)" using Suc.prems by force
  let ?s1 = "(emit [Join j] (emit [Terminate j] s))\<lparr>blocked := Suc (blocked s)\<rparr>"
  have rest: "\<forall>m<k. \<not> interrupted w (blocked ?s1 + m)" using Suc.prems by (force simp: emit_def)
  show ?case using Suc.IH[OF rest, of "Suc j"] first
    by (simp add: blocking_def emit_def upt_conv_Cons)
qed


lemma launch_all_rejected:
  assumes "accepted w gs ps = []"
  shows "launch w gs n i ps s = (None, emit (rejections w gs ps) s)"
  using assms
proof (induction ps arbitrary: i s)
  case Nil
  then show ?case by (simp add: rejections_def emit_def)
next
  case (Cons p ps)
  then show ?case
    by (auto simp: accepted_Cons rejections_def emit_def split: sum.splits)
qed

lemma launch_spawn_times:
  assumes "\<forall>k. \<not> interrupted w k" "i + length ps = Suc n"
  shows "spawn_times 0 (trace (snd (launch w gs n i ps s))) =
           spawn_times 0 (trace s) @
           map (\<lambda>j. sum_list (sleeps (trace s)) + 30 * j) [0..<length (accepted w gs ps)]"
  using assms
proof (induction ps arbitrary: i s)
  case Nil
  then show ?case by simp
next
  case (Cons p ps)
  have idx: "Suc i + length ps = Suc n" using Cons.prems(2) by simp
  note IH = Cons.IH[OF Cons.prems(1) idx]
  show ?case
  proof (cases "check_profile w gs p")
    case (Inl r)
    then show ?thesis using IH
      by (cases r) (simp add: accepted_Cons emit_def spawn_times_append sleeps_append)
  next
    case (Inr cfg)
    show ?thesis
    proof (cases "i < n")
      case True
      then show ?thesis using Inr IH Cons.prems(1)
        by (simp add: accepted_Cons emit_def spawn_times_append sleeps_append blocking_def
            map_upt_Suc add.assoc del: upt_Suc)
    next
      case False
      then have "ps = []" using Cons.prems(2) by (cases ps) auto
      then show ?thesis using Inr False
        by (simp add: accepted_Cons emit_def spawn_times_append)
    qed
  qed
qed

lemma supervise_quiet:
  assumes "\<forall>k. \<not> interrupted w k"
  shows "supervise w s =
           (Returned, trace s @
              (if processes s = [] then [Log Error Msg_nothing_to_launch]
               else Log Info (Msg_all_started (length (processes s))) #
                    map Join [0..<length (processes s)]))"
proof -
  have "join_all w 0 k s' =
          (None, s'\<lparr>trace := trace s' @ map Join [0..<k], blocked := blocked s' + k\<rparr>)" for k s'
    using join_all_quiet[of k w s' 0] assms by simp
  then show ?thesis by (simp add: supervise_def emit_def)
qed

lemma spawned_Join [simp]: "spawned (map Join js) = []"
  by (induction js) simp_all

lemma sleeps_Join [simp]: "sleeps (map Join js) = []"
  by (induction js) simp_all

lemma spawn_times_Join [simp]: "spawn_times t (map Join js) = []"
  by (induction js) simp_all

subsection \<open>The start of main\<close>

lemma clean_env_value_nonempty: "clean_env_value x = Some u \<Longrightarrow> u \<noteq> []"
  by (auto simp: clean_env_value_def Let_def split: option.splits if_splits)

lemma url_of_global_settings: "map_of (read_global_settings w u) ''url'' = Some u"
  by (simp add: read_global_settings_def Let_def update_conv' split: option.splits)

lemma makedirs_isdir: "makedirs n = Inr d \<Longrightarrow> isdir d"
  by (cases n) (auto split: if_splits)

lemma main_discovers:
  assumes "makedirs (logs_node fs) = Inr ln"
    and "makedirs (cookies_node fs) = Inr (Directory (Some names))"
    and "clean_env_value (environ w ''CAMOUFOX_INSTANCE_URL'') = Some u"
  shows "main w fs =
     (let cookie_files = filter (\<lambda>f. endswith (lower f) ''.json'') names;
          tr0 = [Makedirs LogsDir, Makedirs CookiesDir, Log Info Msg_manager_starting, IsDir, ListDir]
      in if cookie_files = []
         then (Returned, tr0 @ [Log Error Msg_no_cookie_files, Log Error Msg_no_instances])
         else run_instances w (read_global_settings w u)
                (map (\<lambda>f. [(''cookie_file'', f)]) cookie_files)
                (tr0 @ [Log Info (Msg_found_cookie_files (length cookie_files)),
                        Log Info (Msg_shared_url u)]))"
  using assms clean_env_value_nonempty[OF assms(3)]
  by (simp add: main_def load_instances_from_env_def Let_def)

lemma accepted_files:
  assumes "map_of gs ''url'' = Some u"
  shows "accepted w gs (map (\<lambda>f. [(''cookie_file'', f)]) names) =
           map (\<lambda>f. AList.update ''cookie_file'' f gs) (filter (profile_ok w) names)"
  by (induction names) (simp_all add: accepted_Cons check_profile_file[OF assms])

lemma profile_ok_json: "profile_ok w f \<Longrightarrow> endswith (lower f) ''.json''"
  by (simp add: profile_ok_def)

lemma run_instances_spawned:
  assumes "\<forall>k. \<not> interrupted w k"
  shows "spawned (snd (run_instances w gs ps tr)) = spawned tr @ accepted w gs ps"
proof -
  let ?r = "launch w gs (length ps) 1 ps \<lparr>trace = tr, processes = [], blocked = 0\<rparr>"
  have q: "fst ?r = None" "spawned (trace (snd ?r)) = spawned tr @ accepted w gs ps"
    using launch_quiet[OF assms, of gs "length ps" 1 ps "\<lparr>trace = tr, processes = [], blocked = 0\<rparr>"]
    by simp_all
  obtain s' where s': "?r = (None, s')" using q(1) by (cases ?r) auto
  show ?thesis using q(2) s'
    by (simp add: run_instances_def supervise_quiet[OF assms] spawned_append)
qed

lemma run_instances_spawn_times:
  assumes "\<forall>k. \<not> interrupted w k"
  shows "spawn_times 0 (snd (run_instances w gs ps tr)) =
           spawn_times 0 tr @
           map (\<lambda>j. sum_list (sleeps tr) + 30 * j) [0..<length (accepted w gs ps)]"
proof -
  let ?r = "launch w gs (length ps) 1 ps \<lparr>trace = tr, processes = [], blocked = 0\<rparr>"
  have q: "fst ?r = None"
    using launch_quiet[OF assms, of gs "length ps" 1 ps "\<lparr>trace = tr, processes = [], blocked = 0\<rparr>"]
    by simp
  have t: "spawn_times 0 (trace (snd ?r)) =
             spawn_times 0 tr @
             map (\<lambda>j. sum_list (sleeps tr) + 30 * j) [0..<length (accepted w gs ps)]"
    using launch_spawn_times[OF assms, of 1 ps "length ps" gs "\<lparr>trace = tr, processes = [], blocked = 0\<rparr>"]
    by simp
  obtain s' where s': "?r = (None, s')" using q by (cases ?r) auto
  show ?thesis using t s'
    by (simp add: run_instances_def supervise_quiet[OF assms] spawn_times_append)
qed

lemma sleeps_rejections [simp]: "sleeps (rejections w gs ps) = []"
  by (induction ps) (auto simp: rejections_def split: sum.splits)

lemma spawned_rejections [simp]: "spawned (rejections w gs ps) = []"
  by (induction ps) (auto simp: rejections_def split: sum.splits)

lemma run_instances_all_rejected:
  assumes "accepted w gs ps = []"
  shows "run_instances w gs ps tr =
           (Returned, tr @ rejections w gs ps @ [Log Error Msg_nothing_to_launch])"
  by (simp add: run_instances_def launch_all_rejected[OF assms] emit_def supervise_def)

lemma filter_json_profile_ok:
  "filter (\<lambda>f. endswith (lower f) ''.json'' \<and> profile_ok w f) names = filter (profile_ok w) names"
  by (rule filter_cong) (auto dest: profile_ok_json)

subsection \<open>What is started, whenever Ctrl+C arrives\<close>

lemma blocking_spawned:
  "spawned [ev] = [] \<Longrightarrow> spawned (trace (snd (blocking w ev s))) = spawned (trace s)"
  by (simp add: blocking_def emit_def spawned_append)

lemma join_all_spawned: "spawned (trace (snd (join_all w j k s))) = spawned (trace s)"
proof (induction k arbitrary: j s)
  case 0
  then show ?case by simp
next
  case (Suc k)
  show ?case
  proof (cases "blocking w (Join j) s")
    case (Pair r s1)
    have "spawned (trace s1) = spawned (trace s)"
      using blocking_spawned[of "Join j" w s] Pair by simp
    then show ?thesis using Pair Suc.IH[of "Suc j" s1] by (cases r) simp_all
  qed
qed

lemma terminate_all_spawned: "spawned (trace (snd (terminate_all w j k s))) = spawned (trace s)"
proof (induction k arbitrary: j s)
  case 0
  then show ?case by simp
next
  case (Suc k)
  show ?case
  proof (cases "blocking w (Join j) (emit [Terminate j] s)")
    case (Pair r s1)
    have "spawned (trace s1) = spawned (trace s)"
      using blocking_spawned[of "Join j" w "emit [Terminate j] s"] Pair
      by (simp add: emit_def spawned_append)
    then show ?thesis using Pair Suc.IH[of "Suc j" s1] by (cases r) simp_all
  qed
qed

lemma supervise_spawned: "spawned (snd (supervise w s)) = spawned (trace s)"
proof (cases "processes s = []")
  case True
  then show ?thesis by (simp add: supervise_def spawned_append)
next
  case False
  let ?s1 = "emit [Log Info (Msg_all_started (length (processes s)))] s"
  have s1: "spawned (trace ?s1) = spawned (trace s)" by (simp add: emit_def spawned_append)
  obtain r s2 where j: "join_all w 0 (length (processes s)) ?s1 = (r, s2)" by force
  have s2: "spawned (trace s2) = spawned (trace s)"
    using join_all_spawned[of w 0 "length (processes s)" ?s1] j s1 by simp
  let ?s2' = "emit [Log Info Msg_caught_interrupt] s2"
  obtain r3 s3 where t: "terminate_all w 0 (length (processes s)) ?s2' = (r3, s3)" by force
  have s3: "spawned (trace s3) = spawned (trace s)"
    using terminate_all_spawned[of w 0 "length (processes s)" ?s2'] t s2
    by (simp add: emit_def spawned_append)
  show ?thesis using False j t s2 s3
    by (simp add: supervise_def Let_def spawned_append split: option.splits exn.splits)
qed

lemma launch_spawned_subset:
  "set (spawned (trace (snd (launch w gs n i ps s)))) \<subseteq>
     set (spawned (trace s)) \<union> set (accepted w gs ps)"
proof (induction ps arbitrary: i s)
  case Nil
  then show ?case by simp
next
  case (Cons p ps)
  show ?case
  proof (cases "check_profile w gs p")
    case (Inl r)
    then show ?thesis using Cons.IH[of "Suc i" "emit [Log (fst r) (snd r)] s"]
      by (cases r) (simp add: accepted_Cons emit_def spawned_append)
  next
    case (Inr cfg)
    let ?s1 = "(emit [Log Info (Msg_launching i n (the (map_of cfg ''cookie_file''))), Start cfg] s)
                 \<lparr>processes := processes s @ [cfg]\<rparr>"
    have s1: "spawned (trace ?s1) = spawned (trace s) @ [cfg]"
      by (simp add: emit_def spawned_append)
    show ?thesis
    proof (cases "i < n \<and> interrupted w (blocked ?s1)")
      case True
      then show ?thesis using Inr s1
        by (auto simp: accepted_Cons blocking_def emit_def spawned_append Let_def)
    next
      case False
      let ?s2 = "if i < n then (emit [Sleep 30] (emit [Log Info Msg_waiting] ?s1))
                                 \<lparr>blocked := Suc (blocked ?s1)\<rparr> else ?s1"
      have l: "launch w gs n i (p # ps) s = launch w gs n (Suc i) ps ?s2"
        using Inr False by (auto simp: blocking_def emit_def Let_def)
      have s2: "spawned (trace ?s2) = spawned (trace s) @ [cfg]"
        using s1 by (simp add: emit_def spawned_append)
      show ?thesis using Cons.IH[of "Suc i" ?s2] Inr s2
        unfolding l by (auto simp: accepted_Cons)
    qed
  qed
qed

lemma run_instances_spawned_subset:
  "set (spawned (snd (run_instances w gs ps tr))) \<subseteq> set (spawned tr) \<union> set (accepted w gs ps)"
proof -
  let ?s0 = "\<lparr>trace = tr, processes = [], blocked = 0\<rparr>"
  obtain r s' where l: "launch w gs (length ps) 1 ps ?s0 = (r, s')" by force
  have "set (spawned (trace s')) \<subseteq> set (spawned tr) \<union> set (accepted w gs ps)"
    using launch_spawned_subset[of w gs "length ps" 1 ps ?s0] l by simp
  then show ?thesis using l
    by (cases r) (simp_all add: run_instances_def supervise_spawned)
qed

lemma main_spawned_ok:
  assumes "cfg \<in> set (spawned (snd (main w fs)))"
  shows "\<exists>f. profile_ok w f \<and> map_of cfg ''cookie_file'' = Some f"
proof -
  have sub: "set (spawned (snd (run_instances w (read_global_settings w u)
                (map (\<lambda>f. [(''cookie_file'', f)]) files) tr))) \<subseteq>
               set (spawned tr) \<union> (\<lambda>f. AList.update ''cookie_file'' f (read_global_settings w u)) `
                 {f. profile_ok w f}" for u files tr
    using run_instances_spawned_subset[of w "read_global_settings w u"
        "map (\<lambda>f. [(''cookie_file'', f)]) files" tr]
    by (auto simp: accepted_files[OF url_of_global_settings])
  have "\<exists>u. cfg \<in> (\<lambda>f. AList.update ''cookie_file'' f (read_global_settings w u)) ` {f. profile_ok w f}"
    using assms sub
    by (fastforce simp: main_def load_instances_from_env_def Let_def
        split: sum.splits option.splits if_splits prod.splits)
  then show ?thesis by (auto simp: update_conv')
qed

lemma main_spawn_times:
  assumes "makedirs (logs_node fs) = Inr ln"
    and "makedirs (cookies_node fs) = Inr (Directory (Some names))"
    and "clean_env_value (environ w ''CAMOUFOX_INSTANCE_URL'') = Some u"
    and "\<forall>k. \<not> interrupted w k"
  shows "spawn_times 0 (snd (main w fs)) =
           map (\<lambda>j. 30 * j) [0..<length (filter (profile_ok w) names)]"
proof (cases "filter (\<lambda>f. endswith (lower f) ''.json'') names = []")
  case True
  then have "filter (\<lambda>f. endswith (lower f) ''.json'' \<and> profile_ok w f) names = []"
    by (auto simp: filter_empty_conv)
  then have "filter (profile_ok w) names = []" by (simp only: filter_json_profile_ok)
  then show ?thesis using True by (simp add: main_discovers[OF assms(1,2,3)] Let_def)
next
  case False
  then show ?thesis
    by (simp add: main_discovers[OF assms(1,2,3)] run_instances_spawn_times[OF assms(4)]
        accepted_files[OF url_of_global_settings] filter_json_profile_ok Let_def)
qed

lemma main_no_sleeps:
  assumes "makedirs (logs_node fs) = Inr ln"
    and "makedirs (cookies_node fs) = Inr (Directory (Some names))"
    and "clean_env_value (environ w ''CAMOUFOX_INSTANCE_URL'') = Some u"
    and "filter (profile_ok w) names = []"
  shows "sleeps (snd (main w fs)) = []"
proof (cases "filter (\<lambda>f. endswith (lower f) ''.json'') names = []")
  case True
  then show ?thesis by (simp add: main_discovers[OF assms(1,2,3)] Let_def)
next
  case False
  have "accepted w (read_global_settings w u)
          (map (\<lambda>f. [(''cookie_file'', f)]) (filter (\<lambda>f. endswith (lower f) ''.json'') names)) = []"
    using assms(4) by (simp add: accepted_files[OF url_of_global_settings] filter_json_profile_ok)
  then show ?thesis using False
    by (simp add: main_discovers[OF assms(1,2,3)] run_instances_all_rejected Let_def sleeps_append)
qed

subsection \<open>The error of the missing directory\<close>

lemma check_profile_never_missing_dir:
  "check_profile w gs p \<noteq> Inl (Error, Msg_cookies_dir_missing)"
  by (simp add: check_profile_def Let_def split: option.splits)

lemma blocking_keeps:
  assumes "x \<notin> set (trace s)" "x \<noteq> ev" "x \<noteq> Interrupt"
  shows "x \<notin> set (trace (snd (blocking w ev s)))"
  using assms by (simp add: blocking_def emit_def)

lemma join_all_keeps:
  assumes "Log lv m \<notin> set (trace s)"
  shows "Log lv m \<notin> set (trace (snd (join_all w j k s)))"
  using assms
proof (induction k arbitrary: j s)
  case 0
  then show ?case by simp
next
  case (Suc k)
  obtain r s1 where b: "blocking w (Join j) s = (r, s1)" by force
  have "Log lv m \<notin> set (trace s1)"
    using blocking_keeps[OF Suc.prems, of "Join j" w] b by simp
  then show ?case using b Suc.IH[of s1 "Suc j"] by (cases r) simp_all
qed

lemma terminate_all_keeps:
  assumes "Log lv m \<notin> set (trace s)"
  shows "Log lv m \<notin> set (trace (snd (terminate_all w j k s)))"
  using assms
proof (induction k arbitrary: j s)
  case 0
  then show ?case by simp
next
  case (Suc k)
  obtain r s1 where b: "blocking w (Join j) (emit [Terminate j] s) = (r, s1)" by force
  have "Log lv m \<notin> set (trace (emit [Terminate j] s))" using Suc.prems by (simp add: emit_def)
  then have "Log lv m \<notin> set (trace s1)"
    using blocking_keeps[of "Log lv m" "emit [Terminate j] s" "Join j" w] b by simp
  then show ?case using b Suc.IH[of s1 "Suc j"] by (cases r) simp_all
qed

lemma supervise_keeps:
  assumes "Log Error Msg_cookies_dir_missing \<notin> set (trace s)"
  shows "Log Error Msg_cookies_dir_missing \<notin> set (snd (supervise w s))"
proof (cases "processes s = []")
  case True
  then show ?thesis using assms by (simp add: supervise_def)
next
  case False
  let ?x = "Log Error Msg_cookies_dir_missing"
  let ?s1 = "emit [Log Info (Msg_all_started (length (processes s)))] s"
  have s1: "?x \<notin> set (trace ?s1)" using assms by (simp add: emit_def)
  obtain r s2 where j: "join_all w 0 (length (processes s)) ?s1 = (r, s2)" by force
  have s2: "?x \<notin> set (trace s2)"
    using join_all_keeps[OF s1, of w 0 "length (processes s)"] j by simp
  let ?s2' = "emit [Log Info Msg_caught_interrupt] s2"
  have s2': "?x \<notin> set (trace ?s2')" using s2 by (simp add: emit_def)
  obtain r3 s3 where t: "terminate_all w 0 (length (processes s)) ?s2' = (r3, s3)" by force
  have s3: "?x \<notin> set (trace s3)"
    using terminate_all_keeps[OF s2', of w 0 "length (processes s)"] t by simp
  show ?thesis using False j t s2 s3
    by (simp add: supervise_def Let_def split: option.splits exn.splits)
qed

lemma launch_keeps:
  assumes "Log Error Msg_cookies_dir_missing \<notin> set (trace s)"
  shows "Log Error Msg_cookies_dir_missing \<notin> set (trace (snd (launch w gs n i ps s)))"
  using assms
proof (induction ps arbitrary: i s)
  case Nil
  then show ?case by simp
next
  case (Cons p ps)
  let ?x = "Log Error Msg_cookies_dir_missing"
  show ?case
  proof (cases "check_profile w gs p")
    case (Inl r)
    obtain lv m where r: "r = (lv, m)" by (cases r)
    have "Log lv m \<noteq> ?x" using Inl r check_profile_never_missing_dir[of w gs p] by auto
    then have "?x \<notin> set (trace (emit [Log lv m] s))" using Cons.prems by (auto simp: emit_def)
    then show ?thesis using Inl r Cons.IH[of "emit [Log lv m] s" "Suc i"] by simp
  next
    case (Inr cfg)
    let ?s1 = "(emit [Log Info (Msg_launching i n (the (map_of cfg ''cookie_file''))), Start cfg] s)
                 \<lparr>processes := processes s @ [cfg]\<rparr>"
    have s1: "?x \<notin> set (trace ?s1)" using Cons.prems by (simp add: emit_def)
    show ?thesis
    proof (cases "i < n")
      case True
      let ?s1' = "emit [Log Info Msg_waiting] ?s1"
      have s1': "?x \<notin> set (trace ?s1')" using s1 by (simp add: emit_def)
      obtain r s2 where b: "blocking w (Sleep 30) ?s1' = (r, s2)" by force
      have s2: "?x \<notin> set (trace s2)"
        using blocking_keeps[OF s1', of "Sleep 30" w] b by simp
      show ?thesis using Inr True b s2 Cons.IH[of s2 "Suc i"]
        by (cases r) (simp_all add: Let_def)
    next
      case False
      then show ?thesis using Inr s1 Cons.IH[of ?s1 "Suc i"] by (simp add: Let_def)
    qed
  qed
qed

lemma run_instances_keeps:
  assumes "Log Error Msg_cookies_dir_missing \<notin> set tr"
  shows "Log Error Msg_cookies_dir_missing \<notin> set (snd (run_instances w gs ps tr))"
proof -
  let ?s0 = "\<lparr>trace = tr, processes = [], blocked = 0\<rparr>"
  obtain r s' where l: "launch w gs (length ps) 1 ps ?s0 = (r, s')" by force
  have "Log Error Msg_cookies_dir_missing \<notin> set (trace s')"
    using launch_keeps[of ?s0 w gs "length ps" 1 ps] assms l by simp
  then show ?thesis using l
    by (cases r) (simp_all add: run_instances_def supervise_keeps)
qed

lemma main_never_reports_missing_dir:
  "Log Error Msg_cookies_dir_missing \<notin> set (snd (main w fs))"
proof (cases "makedirs (logs_node fs)")
  case (Inl e)
  then show ?thesis by (simp add: main_def)
next
  case (Inr ln)
  show ?thesis
  proof (cases "makedirs (cookies_node fs)")
    case (Inl e)
    then show ?thesis using Inr by (simp add: main_def)
  next
    case cn: (Inr cn)
    have d: "isdir cn" using cn by (rule makedirs_isdir)
    show ?thesis using Inr cn d
      by (auto simp: main_def load_instances_from_env_def Let_def run_instances_keeps
          split: option.splits sum.splits)
  qed
qed

subsection \<open>A rejected profile is never started\<close>

lemma profile_ok_prefix:
  "profile_ok w f \<Longrightarrow>
     prefix (resolve w (cookies_dir w)) (resolve w (resolve w (cookies_dir w) @ [f]))"
  by (auto simp: profile_ok_def Let_def parents_iff strict_prefix_def)

lemma check_profile_rejects:
  assumes "\<not> profile_ok w c"
  shows "\<exists>lv m. check_profile w gs [(''cookie_file'', c)] = Inl (lv, m)"
  using assms
  by (auto simp: check_profile_def final_config_def profile_ok_def Let_def update_conv'
      split: option.splits)

lemma rejected_step:
  assumes "\<not> profile_ok w c"
  shows "\<exists>lv m. check_profile w gs [(''cookie_file'', c)] = Inl (lv, m) \<and>
           launch w gs n i ([(''cookie_file'', c)] # rest) s =
             launch w gs n (Suc i) rest (emit [Log lv m] s)"
proof -
  obtain lv m where "check_profile w gs [(''cookie_file'', c)] = Inl (lv, m)"
    using check_profile_rejects[OF assms] by blast
  then show ?thesis by simp
qed

lemma never_spawned:
  assumes "\<not> profile_ok w c"
  shows "\<forall>cfg\<in>set (spawned (snd (main w fs))). map_of cfg ''cookie_file'' \<noteq> Some c"
  using assms main_spawned_ok[of _ w fs] by fastforce

subsection \<open>Leaving out a rejected profile\<close>

lemma launch_shift:
  assumes "blocked s = blocked s'" "spawned (trace s) = spawned (trace s')"
  shows "spawned (trace (snd (launch w gs (Suc n) (Suc i) ps s))) =
         spawned (trace (snd (launch w gs n i ps s')))"
  using assms
proof (induction ps arbitrary: i s s')
  case Nil
  then show ?case by simp
next
  case (Cons p ps)
  show ?case
  proof (cases "check_profile w gs p")
    case (Inl r)
    obtain lv m where r: "r = (lv, m)" by (cases r)
    have "spawned (trace (snd (launch w gs (Suc n) (Suc (Suc i)) ps (emit [Log lv m] s)))) =
          spawned (trace (snd (launch w gs n (Suc i) ps (emit [Log lv m] s'))))"
      using Cons.prems by (intro Cons.IH) (simp_all add: emit_def spawned_append)
    then show ?thesis using Inl r by simp
  next
    case (Inr cfg)
    let ?a = "\<lambda>k N st. (emit [Log Info (Msg_launching k N (the (map_of cfg ''cookie_file''))), Start cfg] st)
                 \<lparr>processes := processes st @ [cfg]\<rparr>"
    let ?b = "\<lambda>st. (emit [Sleep 30] (emit [Log Info Msg_waiting] st))\<lparr>blocked := Suc (blocked st)\<rparr>"
    show ?thesis
    proof (cases "i < n")
      case False
      have "spawned (trace (snd (launch w gs (Suc n) (Suc (Suc i)) ps (?a (Suc i) (Suc n) s)))) =
            spawned (trace (snd (launch w gs n (Suc i) ps (?a i n s'))))"
        using Cons.prems by (intro Cons.IH) (simp_all add: emit_def spawned_append)
      then show ?thesis using Inr False by (simp add: Let_def)
    next
      case True
      show ?thesis
      proof (cases "interrupted w (blocked s)")
        case True
        then show ?thesis using Inr \<open>i < n\<close> Cons.prems
          by (simp add: Let_def blocking_def emit_def spawned_append)
      next
        case False
        have "spawned (trace (snd (launch w gs (Suc n) (Suc (Suc i)) ps (?b (?a (Suc i) (Suc n) s))))) =
              spawned (trace (snd (launch w gs n (Suc i) ps (?b (?a i n s')))))"
          using Cons.prems by (intro Cons.IH) (simp_all add: emit_def spawned_append)
        then show ?thesis using Inr \<open>i < n\<close> False Cons.prems
          by (simp add: Let_def blocking_def emit_def)
      qed
    qed
  qed
qed

lemma launch_drop_rejected:
  assumes "check_profile w gs bad = Inl (lv0, m0)" "i + length ps1 + length ps2 = Suc n"
    "blocked s = blocked s'" "spawned (trace s) = spawned (trace s')"
  shows "spawned (trace (snd (launch w gs (Suc n) i (ps1 @ bad # ps2) s))) =
         spawned (trace (snd (launch w gs n i (ps1 @ ps2) s')))"
  using assms(2-)
proof (induction ps1 arbitrary: i s s')
  case Nil
  have "spawned (trace (snd (launch w gs (Suc n) (Suc i) ps2 (emit [Log lv0 m0] s)))) =
        spawned (trace (snd (launch w gs n i ps2 s')))"
    using Nil.prems by (intro launch_shift) (simp_all add: emit_def spawned_append)
  then show ?case using assms(1) by simp
next
  case (Cons p ps1)
  have idx: "Suc i + length ps1 + length ps2 = Suc n" using Cons.prems(1) by simp
  show ?case
  proof (cases "check_profile w gs p")
    case (Inl r)
    obtain lv m where r: "r = (lv, m)" by (cases r)
    have "spawned (trace (snd (launch w gs (Suc n) (Suc i) (ps1 @ bad # ps2) (emit [Log lv m] s)))) =
          spawned (trace (snd (launch w gs n (Suc i) (ps1 @ ps2) (emit [Log lv m] s'))))"
      using Cons.prems idx by (intro Cons.IH) (simp_all add: emit_def spawned_append)
    then show ?thesis using Inl r by simp
  next
    case (Inr cfg)
    let ?a = "\<lambda>k N st. (emit [Log Info (Msg_launching k N (the (map_of cfg ''cookie_file''))), Start cfg] st)
                 \<lparr>processes := processes st @ [cfg]\<rparr>"
    let ?b = "\<lambda>st. (emit [Sleep 30] (emit [Log Info Msg_waiting] st))\<lparr>blocked := Suc (blocked st)\<rparr>"
    have lt: "i < Suc n" using Cons.prems(1) by simp
    show ?thesis
    proof (cases "i < n")
      case True
      show ?thesis
      proof (cases "interrupted w (blocked s)")
        case stop: True
        then show ?thesis using Inr lt True Cons.prems
          by (simp add: Let_def blocking_def emit_def spawned_append)
      next
        case False
        have "spawned (trace (snd (launch w gs (Suc n) (Suc i) (ps1 @ bad # ps2) (?b (?a i (Suc n) s))))) =
              spawned (trace (snd (launch w gs n (Suc i) (ps1 @ ps2) (?b (?a i n s')))))"
          using Cons.prems idx by (intro Cons.IH) (simp_all add: emit_def spawned_append)
        then show ?thesis using Inr lt True False Cons.prems
          by (simp add: Let_def blocking_def emit_def)
      qed
    next
      case last: False
      then have e: "ps1 = []" "ps2 = []" using Cons.prems(1) by auto
      show ?thesis using Inr lt last Cons.prems assms(1) e
        by (simp add: Let_def blocking_def emit_def spawned_append)
    qed
  qed
qed

lemma run_instances_spawned_launch:
  "spawned (snd (run_instances w gs ps tr)) =
     spawned (trace (snd (launch w gs (length ps) 1 ps \<lparr>trace = tr, processes = [], blocked = 0\<rparr>)))"
proof -
  obtain r s' where "launch w gs (length ps) 1 ps \<lparr>trace = tr, processes = [], blocked = 0\<rparr> = (r, s')"
    by force
  then show ?thesis by (cases r) (simp_all add: run_instances_def supervise_spawned)
qed

lemma run_instances_drop_rejected:
  assumes "check_profile w gs bad = Inl (lv, m)"
  shows "spawned (snd (run_instances w gs (ps1 @ bad # ps2) tr)) =
         spawned (snd (run_instances w gs (ps1 @ ps2) tr))"
  using launch_drop_rejected[OF assms, of 1 ps1 ps2 "length ps1 + length ps2"
      "\<lparr>trace = tr, processes = [], blocked = 0\<rparr>" "\<lparr>trace = tr, processes = [], blocked = 0\<rparr>"]
  by (simp add: run_instances_spawned_launch)

subsection \<open>The extension check\<close>

lemma endswith_json_iff:
  "endswith (lower c) ''.json'' \<longleftrightarrow> (\<exists>stem ext. c = stem @ ext \<and> lower ext = ''.json'')"
proof
  assume e: "endswith (lower c) ''.json''"
  have "c = take (length c - 5) c @ drop (length c - 5) c" by simp
  moreover have "lower (drop (length c - 5) c) = ''.json''"
    using e by (simp add: endswith_def lower_def drop_map eval_nat_numeral)
  ultimately show "\<exists>stem ext. c = stem @ ext \<and> lower ext = ''.json''" by blast
next
  assume "\<exists>stem ext. c = stem @ ext \<and> lower ext = ''.json''"
  then obtain stem ext where c: "c = stem @ ext" and x: "lower ext = ''.json''" by blast
  have "length (lower ext) = 5" by (simp add: x)
  then have "length ext = 5" by (simp add: lower_def)
  then show "endswith (lower c) ''.json''"
    using c x by (simp add: endswith_def lower_def)
qed

subsection \<open>Configuration halts\<close>

text \<open>
  Claim C7. If the endpoint variable \<^verbatim>\<open>CAMOUFOX_INSTANCE_URL\<close> is unset, or its value is
  empty after \<^verbatim>\<open>strip()\<close>, and the two directories of the start-up exist or can be
  created, then \<^verbatim>\<open>main\<close> returns without raising, and its whole trace is: the two
  \<^verbatim>\<open>makedirs\<close>, the start line, the error about the missing endpoint and the error
  about no instance configuration. The cookies directory is neither tested nor listed,
  and no process is started.
\<close>

theorem missing_endpoint_halts:
  assumes "makedirs (logs_node fs) = Inr ln" and "makedirs (cookies_node fs) = Inr cn"
    and "environ w ''CAMOUFOX_INSTANCE_URL'' = None \<or>
         (\<exists>raw. environ w ''CAMOUFOX_INSTANCE_URL'' = Some raw \<and> strip raw = [])"
  shows "main w fs =
           (Returned, [Makedirs LogsDir, Makedirs CookiesDir, Log Info Msg_manager_starting,
                       Log Error Msg_missing_url, Log Error Msg_no_instances])"
proof -
  have "clean_env_value (environ w ''CAMOUFOX_INSTANCE_URL'') = None"
    using assms(3) by (auto simp: clean_env_value_def)
  then show ?thesis
    using assms(1,2) by (simp add: main_def load_instances_from_env_def)
qed


theorem missing_endpoint_halts_witness:
  "main (blank_url demo_world) (demo_fs [''alice.json'']) =
     (Returned, [Makedirs LogsDir, Makedirs CookiesDir, Log Info Msg_manager_starting,
                 Log Error Msg_missing_url, Log Error Msg_no_instances])"
  using missing_endpoint_halts[of "demo_fs [''alice.json'']" "Directory (Some [])"
      "Directory (Some [''alice.json''])" "blank_url demo_world"]
  by (simp add: demo_fs_def blank_url_def demo_world_def strip_def is_space_def)

text \<open>
  Claim C10. No run of \<^verbatim>\<open>main\<close> logs the error that the cookies directory does not
  exist. When the directory is missing, the endpoint is set and the logs directory is
  ready, \<^verbatim>\<open>main\<close> either creates it and halts with the error that no credential file
  was found, or (when it cannot be created) raises the \<^verbatim>\<open>OSError\<close> of
  \<^verbatim>\<open>os.makedirs\<close> before the scan. The branch itself is live:
  \<^verbatim>\<open>load_instances_from_env\<close>, called on a file system without the directory,
  logs that error.
\<close>

theorem missing_directory_error_unreachable:
  "Log Error Msg_cookies_dir_missing \<notin> set (snd (main w fs)) \<and>
   (cookies_node fs = NoEntry creatable \<and> makedirs (logs_node fs) = Inr ln \<and>
    clean_env_value (environ w ''CAMOUFOX_INSTANCE_URL'') = Some u \<longrightarrow>
      main w fs =
        (if creatable
         then (Returned, [Makedirs LogsDir, Makedirs CookiesDir, Log Info Msg_manager_starting,
                          IsDir, ListDir, Log Error Msg_no_cookie_files, Log Error Msg_no_instances])
         else (Raised OSError, [Makedirs LogsDir, Makedirs CookiesDir]))) \<and>
   (clean_env_value (environ w ''CAMOUFOX_INSTANCE_URL'') = Some u \<and> \<not> isdir (cookies_node fs) \<longrightarrow>
      load_instances_from_env w fs = ([IsDir, Log Error Msg_cookies_dir_missing], None))"
proof (intro conjI impI)
  show "Log Error Msg_cookies_dir_missing \<notin> set (snd (main w fs))"
    by (rule main_never_reports_missing_dir)
next
  assume a: "cookies_node fs = NoEntry creatable \<and> makedirs (logs_node fs) = Inr ln \<and>
    clean_env_value (environ w ''CAMOUFOX_INSTANCE_URL'') = Some u"
  show "main w fs =
        (if creatable
         then (Returned, [Makedirs LogsDir, Makedirs CookiesDir, Log Info Msg_manager_starting,
                          IsDir, ListDir, Log Error Msg_no_cookie_files, Log Error Msg_no_instances])
         else (Raised OSError, [Makedirs LogsDir, Makedirs CookiesDir]))"
  proof (cases creatable)
    case True
    then have m: "makedirs (cookies_node fs) = Inr (Directory (Some []))" using a by simp
    show ?thesis using True a by (simp add: main_discovers[OF _ m])
  next
    case False
    then show ?thesis using a by (simp add: main_def)
  qed
next
  assume "clean_env_value (environ w ''CAMOUFOX_INSTANCE_URL'') = Some u \<and> \<not> isdir (cookies_node fs)"
  then show "load_instances_from_env w fs = ([IsDir, Log Error Msg_cookies_dir_missing], None)"
    using clean_env_value_nonempty[of "environ w ''CAMOUFOX_INSTANCE_URL''" u]
    by (simp add: load_instances_from_env_def Let_def)
qed

theorem missing_directory_error_unreachable_witness:
  "main demo_world \<lparr>logs_node = NoEntry True, cookies_node = NoEntry True\<rparr> =
     (Returned, [Makedirs LogsDir, Makedirs CookiesDir, Log Info Msg_manager_starting,
                 IsDir, ListDir, Log Error Msg_no_cookie_files, Log Error Msg_no_instances]) \<and>
   load_instances_from_env demo_world \<lparr>logs_node = NoEntry True, cookies_node = NoEntry True\<rparr> =
     ([IsDir, Log Error Msg_cookies_dir_missing], None)"
  using missing_directory_error_unreachable[of demo_world
      "\<lparr>logs_node = NoEntry True, cookies_node = NoEntry True\<rparr>" True "Directory (Some [])"
      "''https://x.test''"]
  by (simp add: demo_world_def clean_env_value_def strip_def is_space_def)

text \<open>
  Claim C8. If the start-up succeeds, the endpoint is set and the scan finds credential
  files, but none of them passes the checks of the loop body, then \<^verbatim>\<open>main\<close> returns
  with this trace: the start-up and the scan, one rejection line for each profile, and
  the error that no valid instance configuration can be launched. No process is started,
  nothing is joined and no pacing wait is made.
\<close>

theorem no_valid_profile_halts:
  assumes "makedirs (logs_node fs) = Inr ln"
    and "makedirs (cookies_node fs) = Inr (Directory (Some names))"
    and "clean_env_value (environ w ''CAMOUFOX_INSTANCE_URL'') = Some u"
    and "filter (\<lambda>f. endswith (lower f) ''.json'') names \<noteq> []"
    and "\<forall>f\<in>set names. \<not> profile_ok w f"
  shows "main w fs =
           (Returned,
            [Makedirs LogsDir, Makedirs CookiesDir, Log Info Msg_manager_starting, IsDir, ListDir,
             Log Info (Msg_found_cookie_files (length (filter (\<lambda>f. endswith (lower f) ''.json'') names))),
             Log Info (Msg_shared_url u)] @
            rejections w (read_global_settings w u)
              (map (\<lambda>f. [(''cookie_file'', f)]) (filter (\<lambda>f. endswith (lower f) ''.json'') names)) @
            [Log Error Msg_nothing_to_launch])"
proof -
  let ?gs = "read_global_settings w u"
  let ?files = "filter (\<lambda>f. endswith (lower f) ''.json'') names"
  have "filter (profile_ok w) ?files = []" using assms(5) by (simp add: filter_empty_conv)
  then have "accepted w ?gs (map (\<lambda>f. [(''cookie_file'', f)]) ?files) = []"
    by (simp add: accepted_files[OF url_of_global_settings])
  then show ?thesis using assms(4)
    by (simp add: main_discovers[OF assms(1,2,3)] run_instances_all_rejected Let_def)
qed

theorem no_valid_profile_halts_witness:
  "main demo_world (demo_fs [''out.json'', ''notes.txt'']) =
     (Returned,
      [Makedirs LogsDir, Makedirs CookiesDir, Log Info Msg_manager_starting, IsDir, ListDir,
       Log Info (Msg_found_cookie_files 1), Log Info (Msg_shared_url ''https://x.test''),
       Log Error (Msg_outside_cookies ''out.json''), Log Error Msg_nothing_to_launch])"
  using no_valid_profile_halts[of "demo_fs [''out.json'', ''notes.txt'']"
      "Directory (Some [])" "[''out.json'', ''notes.txt'']" demo_world "''https://x.test''"]
  by (simp add: demo_fs_def demo_world_def clean_env_value_def strip_def is_space_def
      profile_ok_def basename_def endswith_def lower_def lower_char_def char_of_eq_iff parents_iff
      rejections_def check_profile_def final_config_def read_global_settings_def)


subsection \<open>What is spawned\<close>

text \<open>
  Claim C3. If the start-up succeeds, the endpoint is set to \<open>u\<close> (after
  \<^verbatim>\<open>strip()\<close>), the cookies directory lists \<open>names\<close> and no Ctrl+C arrives, then the
  processes started are, one for one and in the order of the listing, the names that
  pass the three checks of the loop body; the configuration of each has \<open>u\<close> under
  \<^verbatim>\<open>url\<close> and its file name under \<^verbatim>\<open>cookie_file\<close>. A valid credential file is one
  that the loop body accepts (\<open>profile_ok\<close>).
\<close>

theorem spawns_every_valid_profile:
  assumes "makedirs (logs_node fs) = Inr ln"
    and "makedirs (cookies_node fs) = Inr (Directory (Some names))"
    and "clean_env_value (environ w ''CAMOUFOX_INSTANCE_URL'') = Some u"
    and "\<forall>k. \<not> interrupted w k"
  shows "length (spawned (snd (main w fs))) = length (filter (profile_ok w) names) \<and>
         map (\<lambda>c. (map_of c ''url'', map_of c ''cookie_file'')) (spawned (snd (main w fs))) =
           map (\<lambda>f. (Some u, Some f)) (filter (profile_ok w) names)"
proof -
  let ?gs = "read_global_settings w u"
  let ?files = "filter (\<lambda>f. endswith (lower f) ''.json'') names"
  have url: "map_of ?gs ''url'' = Some u" by (rule url_of_global_settings)
  have sp: "spawned (snd (main w fs)) =
              map (\<lambda>f. AList.update ''cookie_file'' f ?gs) (filter (profile_ok w) names)"
  proof (cases "?files = []")
    case True
    then have "filter (\<lambda>f. endswith (lower f) ''.json'' \<and> profile_ok w f) names = []"
      by (auto simp: filter_empty_conv)
    then have "filter (profile_ok w) names = []" by (simp only: filter_json_profile_ok)
    then show ?thesis using True by (simp add: main_discovers[OF assms(1,2,3)] Let_def)
  next
    case False
    then show ?thesis
      by (simp add: main_discovers[OF assms(1,2,3)] run_instances_spawned[OF assms(4)]
          accepted_files[OF url] filter_json_profile_ok Let_def)
  qed
  show ?thesis by (simp add: sp update_conv' url o_def)
qed

theorem spawns_every_valid_profile_witness:
  "map (\<lambda>c. (map_of c ''url'', map_of c ''cookie_file''))
     (spawned (snd (main demo_world (demo_fs [''alice.json'', ''notes.txt'', ''out.json'', ''bob.JSON''])))) =
   [(Some ''https://x.test'', Some ''alice.json''), (Some ''https://x.test'', Some ''bob.JSON'')]"
  using spawns_every_valid_profile[of "demo_fs [''alice.json'', ''notes.txt'', ''out.json'', ''bob.JSON'']"
      "Directory (Some [])" "[''alice.json'', ''notes.txt'', ''out.json'', ''bob.JSON'']"
      demo_world "''https://x.test''"]
  by (simp add: demo_fs_def demo_world_def clean_env_value_def strip_def is_space_def
      profile_ok_def basename_def endswith_def lower_def lower_char_def char_of_eq_iff parents_iff)

subsection \<open>Pacing\<close>

text \<open>
  Claim C9. In a run without Ctrl+C whose start-up succeeds, the \<open>j\<close>-th worker is
  started when the completed pacing waits add up to \<open>30 * j\<close> seconds, whatever
  number of rejected profiles lies between two accepted ones: consecutive starts are one
  wait of 30 seconds apart. When no profile is accepted the run makes no pacing wait.
  A rejected profile makes the loop log one line and go on to the next profile: it adds
  no wait.
\<close>

theorem rejected_profiles_add_no_pacing:
  assumes "makedirs (logs_node fs) = Inr ln"
    and "makedirs (cookies_node fs) = Inr (Directory (Some names))"
    and "clean_env_value (environ w ''CAMOUFOX_INSTANCE_URL'') = Some u"
    and "\<forall>k. \<not> interrupted w k"
  shows "spawn_times 0 (snd (main w fs)) =
           map (\<lambda>j. 30 * j) [0..<length (filter (profile_ok w) names)] \<and>
         (filter (profile_ok w) names = [] \<longrightarrow> sleeps (snd (main w fs)) = []) \<and>
         (check_profile w gs p = Inl (lv, m) \<longrightarrow>
            launch w gs n i (p # rest) s = launch w gs n (Suc i) rest (emit [Log lv m] s))"
  using main_spawn_times[OF assms] main_no_sleeps[OF assms(1,2,3)] by simp

theorem rejected_profiles_add_no_pacing_witness:
  "spawn_times 0
     (snd (main demo_world
        (demo_fs [''alice.json'', ''out.json'', ''far.json'', ''bob.json'', ''notes.txt'', ''carol.json'']))) =
   [0, 30, 60]"
  using rejected_profiles_add_no_pacing[of
      "demo_fs [''alice.json'', ''out.json'', ''far.json'', ''bob.json'', ''notes.txt'', ''carol.json'']"
      "Directory (Some [])"
      "[''alice.json'', ''out.json'', ''far.json'', ''bob.json'', ''notes.txt'', ''carol.json'']"
      demo_world "''https://x.test''"]
  by (simp add: demo_fs_def demo_world_def clean_env_value_def strip_def is_space_def
      profile_ok_def basename_def endswith_def lower_def lower_char_def char_of_eq_iff parents_iff)


text \<open>
  Claim C2, the behaviour of the code on a listing whose last name is rejected: the
  worker for \<^verbatim>\<open>alice.json\<close> is the last one started, and still the loop logs the
  wait and sleeps 30 seconds after it, because \<^verbatim>\<open>i < len(instance_profiles)\<close> counts
  the rejected \<^verbatim>\<open>out.json\<close>; only then is \<^verbatim>\<open>out.json\<close> rejected and the join phase
  entered.
\<close>

theorem pacing_after_last_spawn:
  "main demo_world (demo_fs [''alice.json'', ''out.json'']) =
     (Returned,
      [Makedirs LogsDir, Makedirs CookiesDir, Log Info Msg_manager_starting, IsDir, ListDir,
       Log Info (Msg_found_cookie_files 2), Log Info (Msg_shared_url ''https://x.test''),
       Log Info (Msg_launching 1 2 ''alice.json''),
       Start [(''headless'', ''virtual''), (''url'', ''https://x.test''), (''cookie_file'', ''alice.json'')],
       Log Info Msg_waiting, Sleep 30,
       Log Error (Msg_outside_cookies ''out.json''),
       Log Info (Msg_all_started 1), Join 0])"
  by (simp add: main_def load_instances_from_env_def read_global_settings_def clean_env_value_def
      strip_def is_space_def endswith_def lower_def lower_char_def char_of_eq_iff run_instances_def
      check_profile_def final_config_def basename_def parents_iff emit_def blocking_def
      supervise_def Let_def demo_world_def demo_fs_def)

subsection \<open>Validation\<close>

text \<open>
  Claim C4, as stated, fails: a name whose resolved path is the cookies directory itself
  (here the symbolic link \<^verbatim>\<open>self.json\<close>) does not lie strictly within the directory,
  and yet it passes the check and a worker is started for it.
\<close>

theorem link_to_cookies_directory_accepted:
  "\<not> strict_prefix (resolve demo_world (cookies_dir demo_world))
        (resolve demo_world (resolve demo_world (cookies_dir demo_world) @ [''self.json''])) \<and>
   main demo_world (demo_fs [''self.json'']) =
     (Returned,
      [Makedirs LogsDir, Makedirs CookiesDir, Log Info Msg_manager_starting, IsDir, ListDir,
       Log Info (Msg_found_cookie_files 1), Log Info (Msg_shared_url ''https://x.test''),
       Log Info (Msg_launching 1 1 ''self.json''),
       Start [(''headless'', ''virtual''), (''url'', ''https://x.test''), (''cookie_file'', ''self.json'')],
       Log Info (Msg_all_started 1), Join 0])"
  by (simp add: main_def load_instances_from_env_def read_global_settings_def clean_env_value_def
      strip_def is_space_def endswith_def lower_def lower_char_def char_of_eq_iff run_instances_def
      check_profile_def final_config_def basename_def parents_iff emit_def blocking_def
      supervise_def Let_def demo_world_def demo_fs_def)

text \<open>
  Claim C4, amended. If the resolved path of a candidate is neither the resolved cookies
  directory nor a path below it, the profile is rejected: the loop logs one line and
  goes on with the next profile, and no run of \<^verbatim>\<open>main\<close> starts a worker whose
  \<^verbatim>\<open>cookie_file\<close> is that name. When the name passes the base name and extension
  checks (and the endpoint is in the settings), the line logged is the error that the
  file must lie in the cookies directory.
\<close>

theorem escaping_profile_rejected:
  assumes "\<not> prefix (resolve w (cookies_dir w)) (resolve w (resolve w (cookies_dir w) @ [c]))"
  shows "(\<exists>lv m. check_profile w gs [(''cookie_file'', c)] = Inl (lv, m) \<and>
            launch w gs n i ([(''cookie_file'', c)] # rest) s =
              launch w gs n (Suc i) rest (emit [Log lv m] s)) \<and>
         (map_of gs ''url'' \<noteq> None \<and> basename c = c \<and> endswith (lower c) ''.json'' \<longrightarrow>
            check_profile w gs [(''cookie_file'', c)] = Inl (Error, Msg_outside_cookies c)) \<and>
         (\<forall>cfg\<in>set (spawned (snd (main w fs))). map_of cfg ''cookie_file'' \<noteq> Some c)"
proof -
  have no: "\<not> profile_ok w c" using assms profile_ok_prefix by blast
  have "check_profile w gs [(''cookie_file'', c)] = Inl (Error, Msg_outside_cookies c)"
    if "map_of gs ''url'' \<noteq> None \<and> basename c = c \<and> endswith (lower c) ''.json''"
  proof -
    have "map_of gs ''url'' \<noteq> None" using that by (rule conjunct1)
    then obtain u where "map_of gs ''url'' = Some u" by (simp only: not_None_eq) (erule exE)
    then show ?thesis using that no by (simp add: check_profile_file)
  qed
  then show ?thesis using rejected_step[OF no] never_spawned[OF no] by blast
qed

theorem escaping_profile_rejected_witness:
  "check_profile demo_world [(''url'', ''https://x.test'')] [(''cookie_file'', ''out.json'')] =
     Inl (Error, Msg_outside_cookies ''out.json'')"
  using escaping_profile_rejected[of demo_world "''out.json''" "[(''url'', ''https://x.test'')]"]
  by (simp add: demo_world_def basename_def endswith_def lower_def lower_char_def char_of_eq_iff)

text \<open>
  Claim C5. A candidate that contains a slash differs from its base name and is
  rejected: the loop logs one line (the error that only a file name is allowed, when the
  endpoint is in the settings) and goes on with the next profile; no run of
  \<^verbatim>\<open>main\<close> starts a worker whose \<^verbatim>\<open>cookie_file\<close> is that name; and the workers
  started for a list of profiles that holds it are those started for the list without
  it, whenever Ctrl+C arrives.
\<close>

theorem separator_profile_rejected:
  assumes "CHR ''/'' \<in> set c"
  shows "basename c \<noteq> c \<and>
         (\<exists>lv m. check_profile w gs [(''cookie_file'', c)] = Inl (lv, m) \<and>
            launch w gs n i ([(''cookie_file'', c)] # rest) s =
              launch w gs n (Suc i) rest (emit [Log lv m] s)) \<and>
         (map_of gs ''url'' \<noteq> None \<longrightarrow>
            check_profile w gs [(''cookie_file'', c)] = Inl (Error, Msg_path_not_allowed c)) \<and>
         (\<forall>cfg\<in>set (spawned (snd (main w fs))). map_of cfg ''cookie_file'' \<noteq> Some c) \<and>
         spawned (snd (run_instances w gs (ps1 @ [(''cookie_file'', c)] # ps2) tr)) =
           spawned (snd (run_instances w gs (ps1 @ ps2) tr))"
proof -
  have b: "basename c \<noteq> c" using assms by (simp add: basename_neq_iff)
  then have no: "\<not> profile_ok w c" by (simp add: profile_ok_def)
  obtain lv m where rej: "check_profile w gs [(''cookie_file'', c)] = Inl (lv, m)"
    using check_profile_rejects[OF no] by blast
  have "check_profile w gs [(''cookie_file'', c)] = Inl (Error, Msg_path_not_allowed c)"
    if "map_of gs ''url'' \<noteq> None"
  proof -
    from that obtain u where "map_of gs ''url'' = Some u" by (simp only: not_None_eq) (erule exE)
    then show ?thesis using b no by (simp add: check_profile_file)
  qed
  then show ?thesis
    using b rejected_step[OF no] never_spawned[OF no] run_instances_drop_rejected[OF rej] by blast
qed

theorem separator_profile_rejected_witness:
  "basename ''../alice.json'' \<noteq> ''../alice.json'' \<and>
   check_profile demo_world [(''url'', ''https://x.test'')] [(''cookie_file'', ''../alice.json'')] =
     Inl (Error, Msg_path_not_allowed ''../alice.json'')"
  using separator_profile_rejected[of "''../alice.json''" demo_world "[(''url'', ''https://x.test'')]"]
  by simp


text \<open>
  Claim C6. A candidate that does not end in a case variant of \<^verbatim>\<open>.json\<close> is rejected:
  the loop logs one line (the error that the file must be a \<^verbatim>\<open>.json\<close> file, when the
  endpoint is in the settings and the name has no slash) and goes on with the next
  profile, and no run of \<^verbatim>\<open>main\<close> starts a worker for it. A name that ends in a case
  variant of \<^verbatim>\<open>.json\<close> passes the extension check.
\<close>

theorem extension_check_case_insensitive:
  "(\<not> (\<exists>stem ext. c = stem @ ext \<and> lower ext = ''.json'') \<longrightarrow>
      (\<exists>lv m. check_profile w gs [(''cookie_file'', c)] = Inl (lv, m) \<and>
         launch w gs n i ([(''cookie_file'', c)] # rest) s =
           launch w gs n (Suc i) rest (emit [Log lv m] s)) \<and>
      (map_of gs ''url'' \<noteq> None \<and> basename c = c \<longrightarrow>
         check_profile w gs [(''cookie_file'', c)] = Inl (Error, Msg_not_json c)) \<and>
      (\<forall>cfg\<in>set (spawned (snd (main w fs))). map_of cfg ''cookie_file'' \<noteq> Some c)) \<and>
   (lower ext = ''.json'' \<longrightarrow>
      endswith (lower (stem @ ext)) ''.json'' \<and>
      check_profile w gs [(''cookie_file'', stem @ ext)] \<noteq> Inl (Error, Msg_not_json (stem @ ext)))"
proof (intro conjI impI)
  assume "\<not> (\<exists>stem ext. c = stem @ ext \<and> lower ext = ''.json'')"
  then have nj: "\<not> endswith (lower c) ''.json''" by (simp add: endswith_json_iff)
  then have no: "\<not> profile_ok w c" by (simp add: profile_ok_def)
  show "\<exists>lv m. check_profile w gs [(''cookie_file'', c)] = Inl (lv, m) \<and>
         launch w gs n i ([(''cookie_file'', c)] # rest) s =
           launch w gs n (Suc i) rest (emit [Log lv m] s)"
    by (rule rejected_step[OF no])
  show "\<forall>cfg\<in>set (spawned (snd (main w fs))). map_of cfg ''cookie_file'' \<noteq> Some c"
    by (rule never_spawned[OF no])
  assume a: "map_of gs ''url'' \<noteq> None \<and> basename c = c"
  then have "map_of gs ''url'' \<noteq> None" by (rule conjunct1)
  then obtain u where "map_of gs ''url'' = Some u" by (simp only: not_None_eq) (erule exE)
  then show "check_profile w gs [(''cookie_file'', c)] = Inl (Error, Msg_not_json c)"
    using a nj no by (simp add: check_profile_file)
next
  assume x: "lower ext = ''.json''"
  then show j: "endswith (lower (stem @ ext)) ''.json''"
    by (simp only: endswith_json_iff) blast
  show "check_profile w gs [(''cookie_file'', stem @ ext)] \<noteq> Inl (Error, Msg_not_json (stem @ ext))"
    using j by (simp add: check_profile_def final_config_def Let_def update_conv' split: option.splits)
qed

theorem extension_check_case_insensitive_witness:
  "check_profile demo_world [(''url'', ''https://x.test'')] [(''cookie_file'', ''notes.txt'')] =
     Inl (Error, Msg_not_json ''notes.txt'') \<and>
   endswith (lower ''bob.JsOn'') ''.json''"
proof -
  have a: "\<not> (\<exists>stem ext. ''notes.txt'' = stem @ ext \<and> lower ext = ''.json'')"
    unfolding endswith_json_iff[symmetric]
    by (simp add: endswith_def lower_def lower_char_def char_of_eq_iff)
  have b: "lower ''.JsOn'' = ''.json''"
    by (simp add: lower_def lower_char_def char_of_eq_iff)
  show ?thesis
    using a b extension_check_case_insensitive[of "''notes.txt''" demo_world
        "[(''url'', ''https://x.test'')]" _ _ _ _ _ "''.JsOn''" "''bob''"]
    by (simp add: basename_def)
qed

subsection \<open>Interrupts\<close>

text \<open>
  Claim C1, the behaviour of the code when Ctrl+C arrives during the pacing wait that
  follows the first start: \<^verbatim>\<open>time.sleep(30)\<close> is outside the \<^verbatim>\<open>try\<close> block, so
  \<^verbatim>\<open>KeyboardInterrupt\<close> leaves \<^verbatim>\<open>main\<close>, and the worker already started is neither
  terminated nor joined. The handler of the join loop, the other blocking path of
  \<^verbatim>\<open>main\<close>, does terminate and join every tracked process.
\<close>

theorem interrupt_while_pacing_escapes:
  "main (ctrl_c_at 0 demo_world) (demo_fs [''alice.json'', ''bob.json'']) =
     (Raised KeyboardInterrupt,
      [Makedirs LogsDir, Makedirs CookiesDir, Log Info Msg_manager_starting, IsDir, ListDir,
       Log Info (Msg_found_cookie_files 2), Log Info (Msg_shared_url ''https://x.test''),
       Log Info (Msg_launching 1 2 ''alice.json''),
       Start [(''headless'', ''virtual''), (''url'', ''https://x.test''), (''cookie_file'', ''alice.json'')],
       Log Info Msg_waiting, Interrupt])"
  by (simp add: main_def load_instances_from_env_def read_global_settings_def clean_env_value_def
      strip_def is_space_def endswith_def lower_def lower_char_def char_of_eq_iff run_instances_def
      check_profile_def final_config_def basename_def parents_iff emit_def blocking_def
      supervise_def Let_def demo_world_def demo_fs_def ctrl_c_at_def)


text \<open>
  The join loop, for comparison. Let the launch loop be over with at least one process
  tracked. If Ctrl+C arrives during the join of process \<open>m\<close> (the joins before it having
  returned) and not again during the joins of the handler, then the handler logs the
  interrupt, terminates and joins every tracked process in turn, whatever its state,
  logs that all processes are terminated, and \<^verbatim>\<open>main\<close> returns.
\<close>

theorem interrupt_while_supervising:
  assumes "processes s \<noteq> []" and "m < length (processes s)"
    and "\<forall>m'<m. \<not> interrupted w (blocked s + m')"
    and "interrupted w (blocked s + m)"
    and "\<forall>q<length (processes s). \<not> interrupted w (Suc (blocked s + m) + q)"
  shows "supervise w s =
           (Returned,
            trace s @ [Log Info (Msg_all_started (length (processes s)))] @ map Join [0..<m] @
            [Interrupt, Log Info Msg_caught_interrupt] @
            concat (map (\<lambda>i. [Terminate i, Join i]) [0..<length (processes s)]) @
            [Log Info Msg_all_terminated])"
proof -
  let ?K = "length (processes s)"
  let ?s1 = "emit [Log Info (Msg_all_started ?K)] s"
  let ?s2 = "?s1\<lparr>trace := trace ?s1 @ map Join [0..<m] @ [Interrupt], blocked := Suc (blocked ?s1 + m)\<rparr>"
  have j: "join_all w 0 ?K ?s1 = (Some KeyboardInterrupt, ?s2)"
    using join_all_interrupted[of m w ?s1 ?K 0] assms(2,3,4) by (simp add: emit_def)
  let ?s2' = "emit [Log Info Msg_caught_interrupt] ?s2"
  have t: "terminate_all w 0 ?K ?s2' =
             (None, ?s2'\<lparr>trace := trace ?s2' @ concat (map (\<lambda>i. [Terminate i, Join i]) [0..<?K]),
                          blocked := blocked ?s2' + ?K\<rparr>)"
    using terminate_all_quiet[of ?K w ?s2' 0] assms(5) by (simp add: emit_def)
  show ?thesis using assms(1)
    unfolding supervise_def Let_def by (simp add: j t) (simp add: emit_def)
qed

theorem interrupt_while_supervising_witness:
  "main (ctrl_c_at 2 demo_world) (demo_fs [''alice.json'', ''bob.json'']) =
     (Returned,
      [Makedirs LogsDir, Makedirs CookiesDir, Log Info Msg_manager_starting, IsDir, ListDir,
       Log Info (Msg_found_cookie_files 2), Log Info (Msg_shared_url ''https://x.test''),
       Log Info (Msg_launching 1 2 ''alice.json''),
       Start [(''headless'', ''virtual''), (''url'', ''https://x.test''), (''cookie_file'', ''alice.json'')],
       Log Info Msg_waiting, Sleep 30,
       Log Info (Msg_launching 2 2 ''bob.json''),
       Start [(''headless'', ''virtual''), (''url'', ''https://x.test''), (''cookie_file'', ''bob.json'')],
       Log Info (Msg_all_started 2), Join 0, Interrupt, Log Info Msg_caught_interrupt,
       Terminate 0, Join 0, Terminate 1, Join 1, Log Info Msg_all_terminated])"
proof -
  let ?s = "\<lparr>trace =
      [Makedirs LogsDir, Makedirs CookiesDir, Log Info Msg_manager_starting, IsDir, ListDir,
       Log Info (Msg_found_cookie_files 2), Log Info (Msg_shared_url ''https://x.test''),
       Log Info (Msg_launching 1 2 ''alice.json''),
       Start [(''headless'', ''virtual''), (''url'', ''https://x.test''), (''cookie_file'', ''alice.json'')],
       Log Info Msg_waiting, Sleep 30,
       Log Info (Msg_launching 2 2 ''bob.json''),
       Start [(''headless'', ''virtual''), (''url'', ''https://x.test''), (''cookie_file'', ''bob.json'')]],
     processes =
      [[(''headless'', ''virtual''), (''url'', ''https://x.test''), (''cookie_file'', ''alice.json'')],
       [(''headless'', ''virtual''), (''url'', ''https://x.test''), (''cookie_file'', ''bob.json'')]],
     blocked = 1\<rparr>"
  have l: "main (ctrl_c_at 2 demo_world) (demo_fs [''alice.json'', ''bob.json'']) =
             supervise (ctrl_c_at 2 demo_world) ?s"
    apply (simp add: main_def load_instances_from_env_def read_global_settings_def clean_env_value_def
      strip_def is_space_def endswith_def lower_def lower_char_def char_of_eq_iff run_instances_def
      check_profile_def final_config_def basename_def parents_iff emit_def blocking_def
      Let_def demo_world_def demo_fs_def ctrl_c_at_def)
    apply (rule arg_cong2[where f = supervise])
     apply simp_all
    done
  show ?thesis
    unfolding l
    using interrupt_while_supervising[of ?s 1 "ctrl_c_at 2 demo_world"]
    by (simp add: ctrl_c_at_def upt_conv_Cons)
qed

end
